theory Spec2Isabelle
  imports Complex_Main
begin

section \<open>Euclidean square distance matrix: NumPy and loop implementations\<close>

text \<open>
  The notebook \<^verbatim>\<open>euclidean-distance-matrix-numba.jit.ipynb\<close> defines three functions,
  \<^verbatim>\<open>euclidean_numpy\<close>, \<^verbatim>\<open>euclidean_numba1\<close> and \<^verbatim>\<open>euclidean_numba2\<close>.  They are embedded
  here over exact arithmetic: a float is a \<^typ>\<open>real\<close>, so rounding is outside the model.
  The function bodies are read with Python's semantics: an index outside an array raises
  IndexError, operands whose shapes cannot be combined raise ValueError, and
  \<^verbatim>\<open>numba.prange\<close> iterates like \<^verbatim>\<open>range\<close>.
\<close>

subsection \<open>Arrays and errors\<close>

datatype error = IndexError | ValueError

text \<open>
  A two-dimensional array carries its shape and its rows.  The shape is kept apart from
  the rows because an array with no rows still has a second dimension.  A one-dimensional
  array is a list.
\<close>

record ndarray =
  shape :: "nat \<times> nat"
  data :: "real list list"

definition well_formed :: "ndarray \<Rightarrow> bool" where
  "well_formed a =
     (length (data a) = fst (shape a) \<and> list_all (\<lambda>r. length r = snd (shape a)) (data a))"

text \<open>\<^verbatim>\<open>xs[i]\<close> and \<^verbatim>\<open>xs[i] = v\<close> for an index produced by \<^verbatim>\<open>range\<close> (never negative).\<close>

definition getitem :: "'a list \<Rightarrow> nat \<Rightarrow> error + 'a" where
  "getitem xs i = (if i < length xs then Inr (xs ! i) else Inl IndexError)"

definition setitem :: "'a list \<Rightarrow> nat \<Rightarrow> 'a \<Rightarrow> error + 'a list" where
  "setitem xs i v = (if i < length xs then Inr (xs[i := v]) else Inl IndexError)"

text \<open>\<^verbatim>\<open>a[i][k]\<close>: the row first, then the element of the row.\<close>

definition getitem2 :: "ndarray \<Rightarrow> nat \<Rightarrow> nat \<Rightarrow> error + real" where
  "getitem2 a i k =
     (case getitem (data a) i of Inl e \<Rightarrow> Inl e | Inr row \<Rightarrow> getitem row k)"

text \<open>\<^verbatim>\<open>a[i][j] = v\<close>: the row \<^verbatim>\<open>a[i]\<close> is a view, so the store changes \<^verbatim>\<open>a\<close>.\<close>

definition setitem2 :: "ndarray \<Rightarrow> nat \<Rightarrow> nat \<Rightarrow> real \<Rightarrow> error + ndarray" where
  "setitem2 a i j v =
     (case getitem (data a) i of
        Inl e \<Rightarrow> Inl e
      | Inr row \<Rightarrow>
          (case setitem row j v of
             Inl e \<Rightarrow> Inl e
           | Inr row' \<Rightarrow> Inr (a\<lparr>data := (data a)[i := row']\<rparr>)))"

text \<open>\<^verbatim>\<open>np.zeros((n, m))\<close>.\<close>

definition np_zeros :: "nat \<times> nat \<Rightarrow> ndarray" where
  "np_zeros s = \<lparr>shape = s, data = replicate (fst s) (replicate (snd s) 0)\<rparr>"

text \<open>
  A \<^verbatim>\<open>for\<close> loop over a list of indices, threading the loop's state; the first error
  ends the loop, as the exception would.
\<close>

fun for_loop :: "nat list \<Rightarrow> (nat \<Rightarrow> 's \<Rightarrow> error + 's) \<Rightarrow> 's \<Rightarrow> error + 's" where
  "for_loop [] body s = Inr s"
| "for_loop (i # is) body s =
     (case body i s of Inl e \<Rightarrow> Inl e | Inr s' \<Rightarrow> for_loop is body s')"

subsection \<open>Broadcasting\<close>

text \<open>Two dimensions combine when they are equal or one of them is 1.\<close>

definition broadcast_dim :: "nat \<Rightarrow> nat \<Rightarrow> error + nat" where
  "broadcast_dim m n =
     (if m = n then Inr m
      else if m = 1 then Inr n
      else if n = 1 then Inr m
      else Inl ValueError)"

text \<open>An elementwise operation on two one-dimensional arrays.\<close>

definition broadcast1 :: "(real \<Rightarrow> real \<Rightarrow> real) \<Rightarrow> real list \<Rightarrow> real list \<Rightarrow> error + real list" where
  "broadcast1 f u v =
     (case broadcast_dim (length u) (length v) of
        Inl e \<Rightarrow> Inl e
      | Inr n \<Rightarrow>
          Inr (map (\<lambda>k. f (u ! (if length u = 1 then 0 else k))
                          (v ! (if length v = 1 then 0 else k))) [0..<n]))"

text \<open>The element of a two-dimensional array that position \<open>(i, j)\<close> of the result reads.\<close>

definition bget :: "ndarray \<Rightarrow> nat \<Rightarrow> nat \<Rightarrow> real" where
  "bget a i j =
     data a ! (if fst (shape a) = 1 then 0 else i) ! (if snd (shape a) = 1 then 0 else j)"

definition broadcast2 :: "(real \<Rightarrow> real \<Rightarrow> real) \<Rightarrow> ndarray \<Rightarrow> ndarray \<Rightarrow> error + ndarray" where
  "broadcast2 f a b =
     (case broadcast_dim (fst (shape a)) (fst (shape b)) of
        Inl e \<Rightarrow> Inl e
      | Inr n \<Rightarrow>
          (case broadcast_dim (snd (shape a)) (snd (shape b)) of
             Inl e \<Rightarrow> Inl e
           | Inr m \<Rightarrow>
               Inr \<lparr>shape = (n, m),
                    data = map (\<lambda>i. map (\<lambda>j. f (bget a i j) (bget b i j)) [0..<m]) [0..<n]\<rparr>))"

subsection \<open>The NumPy calls of \<^verbatim>\<open>euclidean_numpy\<close>\<close>

text \<open>\<^verbatim>\<open>np.einsum('ij,ij->i', a, b)\<close>: the elementwise product, summed along each row.\<close>

definition np_einsum_ij_ij_i :: "ndarray \<Rightarrow> ndarray \<Rightarrow> error + real list" where
  "np_einsum_ij_ij_i a b =
     (case broadcast2 (*) a b of Inl e \<Rightarrow> Inl e | Inr p \<Rightarrow> Inr (map sum_list (data p)))"

text \<open>\<^verbatim>\<open>v[:, np.newaxis]\<close>: a one-dimensional array of length n as a column of shape (n, 1).\<close>

definition newaxis :: "real list \<Rightarrow> ndarray" where
  "newaxis v = \<lparr>shape = (length v, 1), data = map (\<lambda>c. [c]) v\<rparr>"

text \<open>\<^verbatim>\<open>a.T\<close>.\<close>

definition np_T :: "ndarray \<Rightarrow> ndarray" where
  "np_T a =
     (let (n, m) = shape a
      in \<lparr>shape = (m, n), data = map (\<lambda>j. map (\<lambda>i. data a ! i ! j) [0..<n]) [0..<m]\<rparr>)"

text \<open>\<^verbatim>\<open>np.dot(a, b)\<close> on two-dimensional arrays: the matrix product.\<close>

definition np_dot :: "ndarray \<Rightarrow> ndarray \<Rightarrow> error + ndarray" where
  "np_dot a b =
     (let (n, d) = shape a; (d', m) = shape b
      in if d = d'
         then Inr \<lparr>shape = (n, m),
                   data = map (\<lambda>i. map (\<lambda>j. \<Sum>k\<leftarrow>[0..<d]. data a ! i ! k * data b ! k ! j)
                                         [0..<m]) [0..<n]\<rparr>
         else Inl ValueError)"

text \<open>\<^verbatim>\<open>c * a\<close> for a scalar \<open>c\<close>, and \<^verbatim>\<open>np.abs(a)\<close>.\<close>

definition scalar_mult :: "real \<Rightarrow> ndarray \<Rightarrow> ndarray" where
  "scalar_mult c a = a\<lparr>data := map (map (\<lambda>v. c * v)) (data a)\<rparr>"

definition np_abs :: "ndarray \<Rightarrow> ndarray" where
  "np_abs a = a\<lparr>data := map (map abs) (data a)\<rparr>"

subsection \<open>The three implementations\<close>

text \<open>
  \<^verbatim>\<open>
  def euclidean_numpy(x, y):
      x2 = np.einsum('ij,ij->i', x, x)[:, np.newaxis]
      y2 = np.einsum('ij,ij->i', y, y)[:, np.newaxis].T
      xy = np.dot(x, y.T)
      return np.abs(x2 + y2 - 2. * xy)
  \<close>
\<close>

definition euclidean_numpy :: "ndarray \<Rightarrow> ndarray \<Rightarrow> error + ndarray" where
  "euclidean_numpy x y =
     (case np_einsum_ij_ij_i x x of Inl e \<Rightarrow> Inl e | Inr ex \<Rightarrow>
      let x2 = newaxis ex in
      case np_einsum_ij_ij_i y y of Inl e \<Rightarrow> Inl e | Inr ey \<Rightarrow>
      let y2 = np_T (newaxis ey) in
      case np_dot x (np_T y) of Inl e \<Rightarrow> Inl e | Inr xy \<Rightarrow>
      case broadcast2 (+) x2 y2 of Inl e \<Rightarrow> Inl e | Inr s \<Rightarrow>
      case broadcast2 (-) s (scalar_mult 2 xy) of Inl e \<Rightarrow> Inl e | Inr d \<Rightarrow>
      Inr (np_abs d))"

text \<open>
  \<^verbatim>\<open>
  def euclidean_numba1(x, y):
      num_samples, num_feat = x.shape
      dist_matrix = np.zeros((num_samples, num_samples))
      for i in range(num_samples):
          for j in range(num_samples):
              r = 0.0
              for k in numba.prange(num_feat):
                  r += (x[i][k] - y[j][k])**2
              dist_matrix[i][j] = r
      return dist_matrix
  \<close>
  The bodies of the three loops, innermost first.
\<close>

definition numba1_k :: "ndarray \<Rightarrow> ndarray \<Rightarrow> nat \<Rightarrow> nat \<Rightarrow> nat \<Rightarrow> real \<Rightarrow> error + real" where
  "numba1_k x y i j k r =
     (case getitem2 x i k of Inl e \<Rightarrow> Inl e | Inr xik \<Rightarrow>
      case getitem2 y j k of Inl e \<Rightarrow> Inl e | Inr yjk \<Rightarrow>
      Inr (r + (xik - yjk)\<^sup>2))"

definition numba1_j :: "ndarray \<Rightarrow> ndarray \<Rightarrow> nat \<Rightarrow> nat \<Rightarrow> nat \<Rightarrow> ndarray \<Rightarrow> error + ndarray" where
  "numba1_j x y num_feat i j dist_matrix =
     (case for_loop [0..<num_feat] (numba1_k x y i j) 0 of
        Inl e \<Rightarrow> Inl e
      | Inr r \<Rightarrow> setitem2 dist_matrix i j r)"

definition numba1_i :: "ndarray \<Rightarrow> ndarray \<Rightarrow> nat \<Rightarrow> nat \<Rightarrow> nat \<Rightarrow> ndarray \<Rightarrow> error + ndarray" where
  "numba1_i x y num_samples num_feat i dist_matrix =
     for_loop [0..<num_samples] (numba1_j x y num_feat i) dist_matrix"

definition euclidean_numba1 :: "ndarray \<Rightarrow> ndarray \<Rightarrow> error + ndarray" where
  "euclidean_numba1 x y =
     (let (num_samples, num_feat) = shape x;
          dist_matrix = np_zeros (num_samples, num_samples)
      in for_loop [0..<num_samples] (numba1_i x y num_samples num_feat) dist_matrix)"

text \<open>
  \<^verbatim>\<open>
  def euclidean_numba2(x, y):
      num_samples, num_feat = x.shape
      dist_matrix = np.zeros((num_samples, num_samples))
      for i in range(num_samples):
          for j in numba.prange(num_samples):
              dist_matrix[i][j] = ((x[i] - y[j])**2).sum()
      return dist_matrix
  \<close>
\<close>

definition numba2_j :: "ndarray \<Rightarrow> ndarray \<Rightarrow> nat \<Rightarrow> nat \<Rightarrow> ndarray \<Rightarrow> error + ndarray" where
  "numba2_j x y i j dist_matrix =
     (case getitem (data x) i of Inl e \<Rightarrow> Inl e | Inr xi \<Rightarrow>
      case getitem (data y) j of Inl e \<Rightarrow> Inl e | Inr yj \<Rightarrow>
      case broadcast1 (-) xi yj of Inl e \<Rightarrow> Inl e | Inr d \<Rightarrow>
      setitem2 dist_matrix i j (sum_list (map (\<lambda>v. v\<^sup>2) d)))"

definition numba2_i :: "ndarray \<Rightarrow> ndarray \<Rightarrow> nat \<Rightarrow> nat \<Rightarrow> ndarray \<Rightarrow> error + ndarray" where
  "numba2_i x y num_samples i dist_matrix =
     for_loop [0..<num_samples] (numba2_j x y i) dist_matrix"

definition euclidean_numba2 :: "ndarray \<Rightarrow> ndarray \<Rightarrow> error + ndarray" where
  "euclidean_numba2 x y =
     (let (num_samples, num_feat) = shape x;
          dist_matrix = np_zeros (num_samples, num_samples)
      in for_loop [0..<num_samples] (numba2_i x y num_samples) dist_matrix)"

subsection \<open>The specification's distance\<close>

text \<open>
  The specification's value for the cell of row \<open>u\<close> of the first input and row \<open>v\<close> of
  the second, over \<open>d\<close> features: \<open>\<Sum>k<d. (u[k] - v[k])\<^sup>2\<close>.
\<close>

definition sqdist :: "nat \<Rightarrow> real list \<Rightarrow> real list \<Rightarrow> real" where
  "sqdist d u v = (\<Sum>k\<leftarrow>[0..<d]. (u ! k - v ! k)\<^sup>2)"


text \<open>The matrix of shape \<open>(n, m)\<close> whose cell \<open>(i, j)\<close> is the specification's distance.\<close>

definition sqdist_matrix :: "nat \<Rightarrow> nat \<Rightarrow> nat \<Rightarrow> ndarray \<Rightarrow> ndarray \<Rightarrow> ndarray" where
  "sqdist_matrix n m d x y =
     \<lparr>shape = (n, m),
      data = map (\<lambda>i. map (\<lambda>j. sqdist d (data x ! i) (data y ! j)) [0..<m]) [0..<n]\<rparr>"

text \<open>
  The value that \<^verbatim>\<open>euclidean_numba2\<close> stores in cell \<open>(i, j)\<close>: the right-hand side
  \<^verbatim>\<open>((x[i] - y[j])**2).sum()\<close> of its assignment, on its own.
\<close>

definition numba2_cell :: "ndarray \<Rightarrow> ndarray \<Rightarrow> nat \<Rightarrow> nat \<Rightarrow> error + real" where
  "numba2_cell x y i j =
     (case getitem (data x) i of Inl e \<Rightarrow> Inl e | Inr xi \<Rightarrow>
      case getitem (data y) j of Inl e \<Rightarrow> Inl e | Inr yj \<Rightarrow>
      case broadcast1 (-) xi yj of Inl e \<Rightarrow> Inl e | Inr d \<Rightarrow>
      Inr (sum_list (map (\<lambda>v. v\<^sup>2) d)))"

text \<open>The matrix of shape \<open>(n, m)\<close> whose cell \<open>(i, j)\<close> is \<open>g i j\<close>.\<close>

definition matrix_of :: "nat \<Rightarrow> nat \<Rightarrow> (nat \<Rightarrow> nat \<Rightarrow> real) \<Rightarrow> ndarray" where
  "matrix_of n m g = \<lparr>shape = (n, m), data = map (\<lambda>i. map (g i) [0..<m]) [0..<n]\<rparr>"

text \<open>\<^verbatim>\<open>y[:n]\<close>: the first \<open>n\<close> rows of \<open>y\<close>.\<close>

definition take_rows :: "nat \<Rightarrow> ndarray \<Rightarrow> ndarray" where
  "take_rows n y = \<lparr>shape = (min n (fst (shape y)), snd (shape y)), data = take n (data y)\<rparr>"


section \<open>What the implementations compute\<close>

subsection \<open>Loops\<close>

lemma for_loop_append:
  "for_loop (xs @ ys) body s =
     (case for_loop xs body s of Inl e \<Rightarrow> Inl e | Inr s' \<Rightarrow> for_loop ys body s')"
  by (induction xs arbitrary: s) (auto split: sum.splits)

lemma for_loop_upt_Suc:
  "for_loop [0..<Suc n] body s =
     (case for_loop [0..<n] body s of Inl e \<Rightarrow> Inl e | Inr s' \<Rightarrow> body n s')"
  by (simp add: for_loop_append split: sum.splits)

lemma for_loop_error_kind:
  assumes "for_loop is body s = Inl e"
    and "\<And>i s e. i \<in> set is \<Longrightarrow> body i s = Inl e \<Longrightarrow> P e"
  shows "P e"
  using assms
proof (induction "is" arbitrary: s)
  case Nil
  then show ?case by simp
next
  case (Cons i "is")
  show ?case
  proof (cases "body i s")
    case (Inl e')
    with Cons.prems(1) have "e' = e" by simp
    with Inl Cons.prems(2)[of i s e'] show ?thesis by simp
  next
    case (Inr s')
    with Cons.prems(1) have "for_loop is body s' = Inl e" by simp
    then show ?thesis using Cons.IH[of s'] Cons.prems(2) by auto
  qed
qed

lemma for_loop_fails:
  assumes "i \<in> set is" and "\<And>s. \<exists>e. body i s = Inl e"
  shows "\<exists>e. for_loop is body s = Inl e"
  using assms(1)
proof (induction "is" arbitrary: s)
  case Nil
  then show ?case by simp
next
  case (Cons a "is")
  show ?case
  proof (cases "body a s")
    case (Inl e)
    then show ?thesis by simp
  next
    case (Inr s')
    show ?thesis
    proof (cases "a = i")
      case True
      with assms(2)[of s] Inr show ?thesis by simp
    next
      case False
      with Cons.prems have "i \<in> set is" by simp
      from Cons.IH[OF this, of s'] Inr show ?thesis by simp
    qed
  qed
qed

subsection \<open>The first loop implementation\<close>

lemma k_loop:
  assumes "i < length (data x)" "j < length (data y)"
    and "d \<le> length (data x ! i)" "d \<le> length (data y ! j)"
  shows "for_loop [0..<d] (numba1_k x y i j) r = Inr (r + sqdist d (data x ! i) (data y ! j))"
  using assms(3,4)
proof (induction d)
  case 0
  then show ?case by (simp add: sqdist_def)
next
  case (Suc d)
  then have "for_loop [0..<d] (numba1_k x y i j) r = Inr (r + sqdist d (data x ! i) (data y ! j))"
    by simp
  moreover have "numba1_k x y i j d r' = Inr (r' + (data x ! i ! d - data y ! j ! d)\<^sup>2)" for r'
    using Suc.prems assms(1,2) by (simp add: numba1_k_def getitem2_def getitem_def)
  moreover have "sqdist (Suc d) u v = sqdist d u v + (u ! d - v ! d)\<^sup>2" for u v
    by (simp add: sqdist_def)
  ultimately show ?case
    by (simp add: for_loop_upt_Suc del: upt_Suc)
qed

subsection \<open>Filling a matrix cell by cell\<close>

lemma row_update:
  assumes "n < length r"
  shows "(map g [0..<n] @ drop n r)[n := g n] = map g [0..<Suc n] @ drop (Suc n) r"
proof -
  have "drop n r = r ! n # drop (Suc n) r"
    using assms by (simp add: Cons_nth_drop_Suc)
  then show ?thesis by (simp add: list_update_append)
qed

lemma fill_row:
  assumes "i < length (data dm)" and "n \<le> length (data dm ! i)"
    and "\<And>j. j < n \<Longrightarrow> c j = Inr (g j)"
  shows "for_loop [0..<n] (\<lambda>j dm. case c j of Inl e \<Rightarrow> Inl e | Inr r \<Rightarrow> setitem2 dm i j r) dm =
         Inr (dm\<lparr>data := (data dm)[i := map g [0..<n] @ drop n (data dm ! i)]\<rparr>)"
  using assms(2,3)
proof (induction n)
  case 0
  then show ?case by simp
next
  case (Suc n)
  have "n < length (data dm ! i)" using Suc.prems(1) by simp
  then show ?case
    using Suc assms(1)
    by (simp add: for_loop_upt_Suc setitem2_def getitem_def setitem_def row_update del: upt_Suc)
qed

lemma fill_matrix:
  assumes "n \<le> length (data dm)"
    and "\<And>i. i < n \<Longrightarrow> length (data dm ! i) = N"
    and "\<And>i j. i < n \<Longrightarrow> j < N \<Longrightarrow> c i j = Inr (g i j)"
  shows "for_loop [0..<n]
           (\<lambda>i dm. for_loop [0..<N]
              (\<lambda>j dm. case c i j of Inl e \<Rightarrow> Inl e | Inr r \<Rightarrow> setitem2 dm i j r) dm) dm =
         Inr (dm\<lparr>data := map (\<lambda>i. map (g i) [0..<N]) [0..<n] @ drop n (data dm)\<rparr>)"
  using assms
proof (induction n)
  case 0
  then show ?case by simp
next
  case (Suc n)
  let ?dm = "dm\<lparr>data := map (\<lambda>i. map (g i) [0..<N]) [0..<n] @ drop n (data dm)\<rparr>"
  have IH: "for_loop [0..<n]
           (\<lambda>i dm. for_loop [0..<N]
              (\<lambda>j dm. case c i j of Inl e \<Rightarrow> Inl e | Inr r \<Rightarrow> setitem2 dm i j r) dm) dm = Inr ?dm"
    using Suc by simp
  have n: "n < length (data dm)" using Suc.prems(1) by simp
  have len: "length (data dm ! n) = N" using Suc.prems(2) by simp
  have nth: "data ?dm ! n = data dm ! n"
    using n by (simp add: nth_append)
  have "for_loop [0..<N] (\<lambda>j dm. case c n j of Inl e \<Rightarrow> Inl e | Inr r \<Rightarrow> setitem2 dm n j r) ?dm =
        Inr (?dm\<lparr>data := (data ?dm)[n := map (g n) [0..<N] @ drop N (data ?dm ! n)]\<rparr>)"
    by (rule fill_row) (use n len nth Suc.prems(3) in auto)
  moreover have "(data ?dm)[n := map (g n) [0..<N] @ drop N (data ?dm ! n)] =
     map (\<lambda>i. map (g i) [0..<N]) [0..<Suc n] @ drop (Suc n) (data dm)"
    using row_update[of n "data dm" "\<lambda>i. map (g i) [0..<N]"] n len nth by simp
  ultimately show ?case
    using IH by (simp add: for_loop_upt_Suc del: upt_Suc)
qed

lemma well_formed_row:
  "well_formed a \<Longrightarrow> i < fst (shape a) \<Longrightarrow> length (data a ! i) = snd (shape a)"
  by (simp add: well_formed_def list_all_length)

lemma well_formed_length: "well_formed a \<Longrightarrow> length (data a) = fst (shape a)"
  by (simp add: well_formed_def)

lemma fill_zeros:
  assumes "\<And>i j. i < n \<Longrightarrow> j < n \<Longrightarrow> c i j = Inr (g i j)"
  shows "for_loop [0..<n]
           (\<lambda>i dm. for_loop [0..<n]
              (\<lambda>j dm. case c i j of Inl e \<Rightarrow> Inl e | Inr r \<Rightarrow> setitem2 dm i j r) dm)
           (np_zeros (n, n)) =
         Inr \<lparr>shape = (n, n), data = map (\<lambda>i. map (g i) [0..<n]) [0..<n]\<rparr>"
proof -
  have "for_loop [0..<n]
           (\<lambda>i dm. for_loop [0..<n]
              (\<lambda>j dm. case c i j of Inl e \<Rightarrow> Inl e | Inr r \<Rightarrow> setitem2 dm i j r) dm)
           (np_zeros (n, n)) =
        Inr ((np_zeros (n, n))\<lparr>data := map (\<lambda>i. map (g i) [0..<n]) [0..<n] @
                                          drop n (data (np_zeros (n, n)))\<rparr>)"
    by (rule fill_matrix) (use assms in \<open>simp_all add: np_zeros_def\<close>)
  then show ?thesis by (simp add: np_zeros_def)
qed

subsection \<open>The first loop implementation, as a whole\<close>

lemma numba1_loops:
  "euclidean_numba1 x y =
     for_loop [0..<fst (shape x)]
       (\<lambda>i dm. for_loop [0..<fst (shape x)]
          (\<lambda>j dm. case for_loop [0..<snd (shape x)] (numba1_k x y i j) 0 of
                     Inl e \<Rightarrow> Inl e | Inr r \<Rightarrow> setitem2 dm i j r) dm)
       (np_zeros (fst (shape x), fst (shape x)))"
  unfolding euclidean_numba1_def numba1_i_def[abs_def] numba1_j_def[abs_def]
  by (simp add: case_prod_beta)

lemma numba1_returns:
  assumes "well_formed x" "well_formed y"
    and "snd (shape x) = 0 \<or> (fst (shape x) \<le> fst (shape y) \<and> snd (shape x) \<le> snd (shape y))"
  shows "euclidean_numba1 x y = Inr (sqdist_matrix (fst (shape x)) (fst (shape x)) (snd (shape x)) x y)"
proof -
  have "for_loop [0..<snd (shape x)] (numba1_k x y i j) 0 =
        Inr (sqdist (snd (shape x)) (data x ! i) (data y ! j))"
    if "i < fst (shape x)" "j < fst (shape x)" for i j
  proof (cases "snd (shape x) = 0")
    case True
    then show ?thesis by (simp add: sqdist_def)
  next
    case False
    with assms(3) have le: "fst (shape x) \<le> fst (shape y)" "snd (shape x) \<le> snd (shape y)"
      by simp_all
    have "for_loop [0..<snd (shape x)] (numba1_k x y i j) 0 =
          Inr (0 + sqdist (snd (shape x)) (data x ! i) (data y ! j))"
      by (rule k_loop)
        (use that le assms(1,2) in \<open>simp_all add: well_formed_row well_formed_length\<close>)
    then show ?thesis by simp
  qed
  then show ?thesis
    unfolding numba1_loops sqdist_matrix_def by (rule fill_zeros)
qed

lemma setitem2_error: "setitem2 a i j v = Inl e \<Longrightarrow> e = IndexError"
  by (auto simp: setitem2_def getitem_def setitem_def split: if_splits)

lemma numba1_k_error: "numba1_k x y i j k r = Inl e \<Longrightarrow> e = IndexError"
  by (auto simp: numba1_k_def getitem2_def getitem_def split: if_splits sum.splits)

lemma numba1_error_kind:
  assumes "euclidean_numba1 x y = Inl e"
  shows "e = IndexError"
proof -
  have j: "e' = IndexError" if "numba1_j x y d i j dm = Inl e'" for d i j dm e'
  proof (cases "for_loop [0..<d] (numba1_k x y i j) 0")
    case (Inl e'')
    then have "e'' = IndexError"
      by (rule for_loop_error_kind) (rule numba1_k_error)
    with that Inl show ?thesis by (simp add: numba1_j_def)
  next
    case (Inr r)
    with that show ?thesis by (simp add: numba1_j_def setitem2_error)
  qed
  have i: "e' = IndexError" if "numba1_i x y n d i dm = Inl e'" for n d i dm e'
    using that unfolding numba1_i_def by (rule for_loop_error_kind) (rule j)
  from assms have "for_loop [0..<fst (shape x)] (numba1_i x y (fst (shape x)) (snd (shape x)))
                     (np_zeros (fst (shape x), fst (shape x))) = Inl e"
    by (simp add: euclidean_numba1_def case_prod_beta)
  then show ?thesis
    by (rule for_loop_error_kind) (rule i)
qed

lemma numba1_fails:
  assumes "j < fst (shape x)" "k < snd (shape x)" "getitem2 y j k = Inl e0"
  shows "euclidean_numba1 x y = Inl IndexError"
proof -
  let ?n = "fst (shape x)" and ?d = "snd (shape x)"
  have kf: "\<exists>e. numba1_k x y i j k r = Inl e" for i r
    using assms(3) by (simp add: numba1_k_def split: sum.splits)
  have jf: "\<exists>e. numba1_j x y ?d i j dm = Inl e" for i dm
  proof -
    have "\<exists>e. for_loop [0..<?d] (numba1_k x y i j) 0 = Inl e"
      by (rule for_loop_fails[where i = k]) (use assms(2) kf in auto)
    then show ?thesis by (auto simp: numba1_j_def)
  qed
  have "\<exists>e. numba1_i x y ?n ?d i dm = Inl e" for i dm
    unfolding numba1_i_def
    by (rule for_loop_fails[where i = j]) (use assms(1) jf in auto)
  then have "\<exists>e. for_loop [0..<?n] (numba1_i x y ?n ?d) (np_zeros (?n, ?n)) = Inl e"
    by (intro for_loop_fails[where i = 0]) (use assms(1) in auto)
  then obtain e where "euclidean_numba1 x y = Inl e"
    by (auto simp: euclidean_numba1_def case_prod_beta)
  then show ?thesis using numba1_error_kind by blast
qed

lemma numba1_raises:
  assumes "well_formed y" "0 < snd (shape x)"
    and "fst (shape y) < fst (shape x) \<or> (0 < fst (shape x) \<and> snd (shape y) < snd (shape x))"
  shows "euclidean_numba1 x y = Inl IndexError"
proof (cases "fst (shape y) < fst (shape x)")
  case True
  have "getitem2 y (fst (shape y)) 0 = Inl IndexError"
    using assms(1) by (simp add: getitem2_def getitem_def well_formed_length)
  with True assms(2) show ?thesis by (rule numba1_fails)
next
  case False
  with assms(3) have *: "0 < fst (shape x)" "snd (shape y) < snd (shape x)" "0 < fst (shape y)"
    by auto
  have "getitem2 y 0 (snd (shape y)) = Inl IndexError"
    using assms(1) * by (simp add: getitem2_def getitem_def well_formed_length well_formed_row)
  with *(1,2) show ?thesis by (rule numba1_fails)
qed

subsection \<open>The second loop implementation\<close>

lemma numba2_loops:
  "euclidean_numba2 x y =
     for_loop [0..<fst (shape x)]
       (\<lambda>i dm. for_loop [0..<fst (shape x)]
          (\<lambda>j dm. case numba2_cell x y i j of
                     Inl e \<Rightarrow> Inl e | Inr r \<Rightarrow> setitem2 dm i j r) dm)
       (np_zeros (fst (shape x), fst (shape x)))"
proof -
  have "numba2_j x y i = (\<lambda>j dm. case numba2_cell x y i j of
                     Inl e \<Rightarrow> Inl e | Inr r \<Rightarrow> setitem2 dm i j r)" for i
    by (intro ext) (simp add: numba2_j_def numba2_cell_def split: sum.splits)
  then show ?thesis
    unfolding euclidean_numba2_def numba2_i_def[abs_def]
    by (simp add: case_prod_beta)
qed

lemma broadcast1_same_length:
  assumes "length u = length v"
  shows "broadcast1 f u v = Inr (map (\<lambda>k. f (u ! k) (v ! k)) [0..<length u])"
  using assms by (auto simp: broadcast1_def broadcast_dim_def)

lemma numba2_cell_value:
  assumes "well_formed x" "well_formed y" "snd (shape x) = snd (shape y)"
    and "i < fst (shape x)" "j < fst (shape y)"
  shows "numba2_cell x y i j = Inr (sqdist (snd (shape x)) (data x ! i) (data y ! j))"
proof -
  have len: "length (data x ! i) = length (data y ! j)" "length (data x ! i) = snd (shape x)"
    using assms by (simp_all add: well_formed_row)
  have "broadcast1 (-) (data x ! i) (data y ! j) =
        Inr (map (\<lambda>k. data x ! i ! k - data y ! j ! k) [0..<snd (shape x)])"
    using broadcast1_same_length[OF len(1), of "(-)"] len(2) by simp
  moreover have "getitem (data x) i = Inr (data x ! i)" "getitem (data y) j = Inr (data y ! j)"
    using assms by (simp_all add: getitem_def well_formed_length)
  ultimately show ?thesis
    by (simp add: numba2_cell_def sqdist_def comp_def)
qed

lemma numba2_returns:
  assumes "well_formed x" "well_formed y" "snd (shape x) = snd (shape y)"
    and "fst (shape x) \<le> fst (shape y)"
  shows "euclidean_numba2 x y = Inr (sqdist_matrix (fst (shape x)) (fst (shape x)) (snd (shape x)) x y)"
  unfolding numba2_loops sqdist_matrix_def
  by (rule fill_zeros) (use assms in \<open>simp add: numba2_cell_value\<close>)

lemma numba2_cell_error:
  assumes "well_formed x" "well_formed y" "snd (shape x) = snd (shape y)"
    and "i < fst (shape x)" "numba2_cell x y i j = Inl e"
  shows "e = IndexError"
proof (cases "j < fst (shape y)")
  case True
  with assms show ?thesis by (simp add: numba2_cell_value)
next
  case False
  with assms show ?thesis
    by (simp add: numba2_cell_def getitem_def well_formed_length)
qed

lemma numba2_raises:
  assumes "well_formed x" "well_formed y" "snd (shape x) = snd (shape y)"
    and "fst (shape y) < fst (shape x)"
  shows "euclidean_numba2 x y = Inl IndexError"
proof -
  let ?n = "fst (shape x)"
  let ?bj = "\<lambda>i j dm. case numba2_cell x y i j of
                     Inl e \<Rightarrow> Inl e | Inr r \<Rightarrow> setitem2 dm i j r"
  have cf: "numba2_cell x y i (fst (shape y)) = Inl IndexError" if "i < ?n" for i
    using that assms(1,2) by (simp add: numba2_cell_def getitem_def well_formed_length)
  have "\<exists>e. for_loop [0..<?n] (?bj 0) dm = Inl e" for dm
    by (rule for_loop_fails[where i = "fst (shape y)"]) (use assms(4) cf[of 0] in auto)
  moreover have "0 \<in> set [0..<?n]" using assms(4) by simp
  ultimately have "\<exists>e. for_loop [0..<?n] (\<lambda>i dm. for_loop [0..<?n] (?bj i) dm) (np_zeros (?n, ?n)) = Inl e"
    using for_loop_fails[of 0 "[0..<?n]" "\<lambda>i dm. for_loop [0..<?n] (?bj i) dm" "np_zeros (?n, ?n)"]
    by blast
  then obtain e where e: "for_loop [0..<?n] (\<lambda>i dm. for_loop [0..<?n] (?bj i) dm) (np_zeros (?n, ?n)) = Inl e"
    by blast
  have je: "e' = IndexError" if "i < ?n" "?bj i j dm = Inl e'" for i j dm e'
    using that numba2_cell_error[OF assms(1-3), of i j] setitem2_error
    by (auto split: sum.splits)
  have "e' = IndexError" if "i \<in> set [0..<?n]" "for_loop [0..<?n] (?bj i) dm = Inl e'" for i dm e'
    using that(2) by (rule for_loop_error_kind) (use that(1) je in auto)
  with e have "e = IndexError"
    by (rule for_loop_error_kind[where P = "\<lambda>e. e = IndexError"])
  with e show ?thesis by (simp add: numba2_loops)
qed

subsection \<open>The NumPy implementation\<close>

lemma broadcast_dim_same: "broadcast_dim n n = Inr n"
  by (simp add: broadcast_dim_def)

lemma broadcast_dim_one_right: "broadcast_dim n (Suc 0) = Inr n"
  by (simp add: broadcast_dim_def)

lemma broadcast_dim_one_left: "broadcast_dim (Suc 0) m = Inr m"
  by (simp add: broadcast_dim_def)

lemma bget_in_range:
  "i < fst (shape a) \<Longrightarrow> j < snd (shape a) \<Longrightarrow> bget a i j = data a ! i ! j"
  by (auto simp: bget_def)

lemma bget_column:
  "snd (shape a) = Suc 0 \<Longrightarrow> i < fst (shape a) \<Longrightarrow> bget a i j = data a ! i ! 0"
  by (auto simp: bget_def)

lemma bget_row:
  "fst (shape a) = Suc 0 \<Longrightarrow> j < snd (shape a) \<Longrightarrow> bget a i j = data a ! 0 ! j"
  by (auto simp: bget_def)

lemma sum_list_upt_cong:
  "(\<And>k. k < d \<Longrightarrow> f k = g k) \<Longrightarrow> (\<Sum>k\<leftarrow>[0..<d]. f k) = (\<Sum>k\<leftarrow>[0..<d]. (g k :: real))"
  by (intro arg_cong[where f = sum_list] map_cong) simp_all

lemma matrix_cong:
  "(\<And>i j. i < n \<Longrightarrow> j < m \<Longrightarrow> f i j = g i j) \<Longrightarrow>
   map (\<lambda>i. map (f i) [0..<m]) [0..<n] = map (\<lambda>i. map (g i) [0..<m]) [0..<n]"
  by simp

lemma einsum_self:
  "np_einsum_ij_ij_i x x =
     Inr (map (\<lambda>i. \<Sum>k\<leftarrow>[0..<snd (shape x)]. data x ! i ! k * data x ! i ! k) [0..<fst (shape x)])"
proof -
  have "(\<Sum>k\<leftarrow>[0..<snd (shape x)]. bget x i k * bget x i k) =
        (\<Sum>k\<leftarrow>[0..<snd (shape x)]. data x ! i ! k * data x ! i ! k)"
    if "i < fst (shape x)" for i
    by (rule sum_list_upt_cong) (use that in \<open>simp add: bget_in_range\<close>)
  then show ?thesis
    by (simp add: np_einsum_ij_ij_i_def broadcast2_def broadcast_dim_same comp_def)
qed

lemma dot_transpose:
  assumes "snd (shape x) = snd (shape y)"
  shows "np_dot x (np_T y) =
     Inr \<lparr>shape = (fst (shape x), fst (shape y)),
          data = map (\<lambda>i. map (\<lambda>j. \<Sum>k\<leftarrow>[0..<snd (shape x)]. data x ! i ! k * data y ! j ! k)
                               [0..<fst (shape y)]) [0..<fst (shape x)]\<rparr>"
proof -
  have "(\<Sum>k\<leftarrow>[0..<snd (shape y)]. data x ! i ! k * data (np_T y) ! k ! j) =
        (\<Sum>k\<leftarrow>[0..<snd (shape y)]. data x ! i ! k * data y ! j ! k)"
    if "j < fst (shape y)" for i j
    by (rule sum_list_upt_cong) (use that in \<open>simp add: np_T_def case_prod_beta\<close>)
  then have "map (\<lambda>i. map (\<lambda>j. \<Sum>k\<leftarrow>[0..<snd (shape y)]. data x ! i ! k * data (np_T y) ! k ! j)
                               [0..<fst (shape y)]) [0..<fst (shape x)] =
        map (\<lambda>i. map (\<lambda>j. \<Sum>k\<leftarrow>[0..<snd (shape y)]. data x ! i ! k * data y ! j ! k)
                               [0..<fst (shape y)]) [0..<fst (shape x)]"
    by (intro matrix_cong)
  moreover have "shape (np_T y) = (snd (shape y), fst (shape y))"
    by (simp add: np_T_def case_prod_beta)
  ultimately show ?thesis
    using assms by (simp add: np_dot_def case_prod_beta)
qed


lemma expansion:
  "\<bar>(\<Sum>k\<leftarrow>[0..<d]. u ! k * u ! k) + (\<Sum>k\<leftarrow>[0..<d]. v ! k * v ! k)
      - 2 * (\<Sum>k\<leftarrow>[0..<d]. u ! k * v ! k)\<bar> = sqdist d u v"
proof -
  have "(u ! k - v ! k)\<^sup>2 = u ! k * u ! k + v ! k * v ! k - 2 * (u ! k * v ! k)" for k
    by (simp add: power2_eq_square algebra_simps)
  then have "sqdist d u v =
     (\<Sum>k\<leftarrow>[0..<d]. u ! k * u ! k + v ! k * v ! k - 2 * (u ! k * v ! k))"
    by (simp add: sqdist_def)
  also have "\<dots> = (\<Sum>k\<leftarrow>[0..<d]. u ! k * u ! k) + (\<Sum>k\<leftarrow>[0..<d]. v ! k * v ! k)
      - 2 * (\<Sum>k\<leftarrow>[0..<d]. u ! k * v ! k)"
    by (simp add: sum_list_subtractf sum_list_addf sum_list_const_mult)
  finally have eq: "(\<Sum>k\<leftarrow>[0..<d]. u ! k * u ! k) + (\<Sum>k\<leftarrow>[0..<d]. v ! k * v ! k)
      - 2 * (\<Sum>k\<leftarrow>[0..<d]. u ! k * v ! k) = sqdist d u v" by simp
  have "0 \<le> sqdist d u v"
    unfolding sqdist_def by (rule sum_list_nonneg) auto
  with eq show ?thesis by simp
qed

lemma matrix_of_cong:
  "(\<And>i j. i < n \<Longrightarrow> j < m \<Longrightarrow> f i j = g i j) \<Longrightarrow> matrix_of n m f = matrix_of n m g"
  by (simp add: matrix_of_def)

lemma shape_matrix_of: "shape (matrix_of n m g) = (n, m)"
  by (simp add: matrix_of_def)

lemma nth_matrix_of: "i < n \<Longrightarrow> j < m \<Longrightarrow> data (matrix_of n m g) ! i ! j = g i j"
  by (simp add: matrix_of_def)

lemma sqdist_matrix_of:
  "sqdist_matrix n m d x y = matrix_of n m (\<lambda>i j. sqdist d (data x ! i) (data y ! j))"
  by (simp add: sqdist_matrix_def matrix_of_def)

lemma newaxis_matrix_of: "newaxis (map a [0..<n]) = matrix_of n (Suc 0) (\<lambda>i j. a i)"
  by (simp add: newaxis_def matrix_of_def)

lemma np_T_matrix_of: "np_T (matrix_of n m g) = matrix_of m n (\<lambda>j i. g i j)"
  by (simp add: np_T_def matrix_of_def)

lemma scalar_mult_matrix_of: "scalar_mult c (matrix_of n m g) = matrix_of n m (\<lambda>i j. c * g i j)"
  by (simp add: scalar_mult_def matrix_of_def)

lemma np_abs_matrix_of: "np_abs (matrix_of n m g) = matrix_of n m (\<lambda>i j. \<bar>g i j\<bar>)"
  by (simp add: np_abs_def matrix_of_def)

lemma broadcast2_same_shape:
  "broadcast2 f (matrix_of n m g) (matrix_of n m h) = Inr (matrix_of n m (\<lambda>i j. f (g i j) (h i j)))"
proof -
  let ?a = "matrix_of n m g" and ?b = "matrix_of n m h"
  have "broadcast2 f ?a ?b = Inr (matrix_of n m (\<lambda>i j. f (bget ?a i j) (bget ?b i j)))"
    by (simp add: broadcast2_def shape_matrix_of broadcast_dim_same)
      (simp add: matrix_of_def)
  also have "matrix_of n m (\<lambda>i j. f (bget ?a i j) (bget ?b i j)) =
        matrix_of n m (\<lambda>i j. f (g i j) (h i j))"
    by (rule matrix_of_cong) (simp add: bget_in_range shape_matrix_of nth_matrix_of)
  finally show ?thesis .
qed

lemma broadcast2_column_row:
  "broadcast2 f (matrix_of n (Suc 0) g) (matrix_of (Suc 0) m h) =
     Inr (matrix_of n m (\<lambda>i j. f (g i 0) (h 0 j)))"
proof -
  let ?a = "matrix_of n (Suc 0) g" and ?b = "matrix_of (Suc 0) m h"
  have "broadcast2 f ?a ?b = Inr (matrix_of n m (\<lambda>i j. f (bget ?a i j) (bget ?b i j)))"
    by (simp add: broadcast2_def shape_matrix_of broadcast_dim_one_left broadcast_dim_one_right)
      (simp add: matrix_of_def)
  also have "matrix_of n m (\<lambda>i j. f (bget ?a i j) (bget ?b i j)) =
        matrix_of n m (\<lambda>i j. f (g i 0) (h 0 j))"
    by (rule matrix_of_cong)
      (simp add: bget_column bget_row shape_matrix_of nth_matrix_of)
  finally show ?thesis .
qed


lemma numpy_returns:
  assumes "snd (shape x) = snd (shape y)"
  shows "euclidean_numpy x y =
         Inr (sqdist_matrix (fst (shape x)) (fst (shape y)) (snd (shape x)) x y)"
proof -
  let ?n = "fst (shape x)" and ?m = "fst (shape y)" and ?d = "snd (shape x)"
  let ?xx = "\<lambda>i. \<Sum>k\<leftarrow>[0..<?d]. data x ! i ! k * data x ! i ! k"
  let ?yy = "\<lambda>j. \<Sum>k\<leftarrow>[0..<?d]. data y ! j ! k * data y ! j ! k"
  let ?xy = "\<lambda>i j. \<Sum>k\<leftarrow>[0..<?d]. data x ! i ! k * data y ! j ! k"
  have ex: "np_einsum_ij_ij_i x x = Inr (map ?xx [0..<?n])"
    by (rule einsum_self)
  have ey: "np_einsum_ij_ij_i y y = Inr (map ?yy [0..<?m])"
    using einsum_self[of y] assms by simp
  have xy: "np_dot x (np_T y) = Inr (matrix_of ?n ?m ?xy)"
    using dot_transpose[OF assms] by (simp add: matrix_of_def)
  have s: "broadcast2 (+) (newaxis (map ?xx [0..<?n])) (np_T (newaxis (map ?yy [0..<?m]))) =
           Inr (matrix_of ?n ?m (\<lambda>i j. ?xx i + ?yy j))"
    by (simp add: newaxis_matrix_of np_T_matrix_of broadcast2_column_row)
  have d: "broadcast2 (-) (matrix_of ?n ?m (\<lambda>i j. ?xx i + ?yy j)) (scalar_mult 2 (matrix_of ?n ?m ?xy)) =
           Inr (matrix_of ?n ?m (\<lambda>i j. ?xx i + ?yy j - 2 * ?xy i j))"
    by (simp add: scalar_mult_matrix_of broadcast2_same_shape)
  have "euclidean_numpy x y = Inr (np_abs (matrix_of ?n ?m (\<lambda>i j. ?xx i + ?yy j - 2 * ?xy i j)))"
    by (simp add: euclidean_numpy_def ex ey xy s d)
  also have "\<dots> = Inr (matrix_of ?n ?m (\<lambda>i j. sqdist ?d (data x ! i) (data y ! j)))"
    by (simp add: np_abs_matrix_of expansion)
  finally show ?thesis by (simp add: sqdist_matrix_of)
qed

subsection \<open>What the three implementations return\<close>

lemma numba1_no_rows:
  assumes "fst (shape x) = 0"
  shows "euclidean_numba1 x y = Inr (sqdist_matrix 0 0 (snd (shape x)) x y)"
  using assms by (simp add: euclidean_numba1_def case_prod_beta np_zeros_def sqdist_matrix_def)

lemma numba1_cases:
  assumes "well_formed x" "well_formed y"
  shows "euclidean_numba1 x y =
     (if 0 < fst (shape x) \<and> 0 < snd (shape x) \<and>
         (fst (shape y) < fst (shape x) \<or> snd (shape y) < snd (shape x))
      then Inl IndexError
      else Inr (sqdist_matrix (fst (shape x)) (fst (shape x)) (snd (shape x)) x y))"
proof (cases "fst (shape x) = 0")
  case True
  then show ?thesis using numba1_no_rows[OF True, of y] by simp
next
  case False
  show ?thesis
  proof (cases "0 < snd (shape x) \<and>
         (fst (shape y) < fst (shape x) \<or> snd (shape y) < snd (shape x))")
    case True
    with False have "euclidean_numba1 x y = Inl IndexError"
      by (intro numba1_raises assms) auto
    with True False show ?thesis by simp
  next
    case no: False
    then have "euclidean_numba1 x y =
       Inr (sqdist_matrix (fst (shape x)) (fst (shape x)) (snd (shape x)) x y)"
      by (intro numba1_returns assms) auto
    with no show ?thesis by auto
  qed
qed

lemma numba2_cases:
  assumes "well_formed x" "well_formed y" "snd (shape x) = snd (shape y)"
  shows "euclidean_numba2 x y =
     (if fst (shape y) < fst (shape x) then Inl IndexError
      else Inr (sqdist_matrix (fst (shape x)) (fst (shape x)) (snd (shape x)) x y))"
  using numba2_raises[OF assms] numba2_returns[OF assms] by auto

lemma well_formed_take_rows: "well_formed y \<Longrightarrow> well_formed (take_rows n y)"
  by (auto simp: well_formed_def take_rows_def list_all_iff dest: in_set_takeD)

lemma sqdist_matrix_take_rows:
  "sqdist_matrix n n d x (take_rows n y) = sqdist_matrix n n d x y"
  unfolding sqdist_matrix_of
  by (rule matrix_of_cong) (simp add: take_rows_def)

lemma well_formed_sqdist_matrix: "well_formed (sqdist_matrix n m d x y)"
  by (simp add: well_formed_def sqdist_matrix_def list_all_iff)






lemma shape_sqdist_matrix: "shape (sqdist_matrix n m d x y) = (n, m)"
  by (simp add: sqdist_matrix_def)

lemma sqdist_matrix_no_rows: "sqdist_matrix 0 m d x y = \<lparr>shape = (0, m), data = []\<rparr>"
  by (simp add: sqdist_matrix_def)


section \<open>Properties of the implementations\<close>

text \<open>
  Claim C1, as the code has it.  For well-formed \<open>x\<close> of shape \<open>(N, D)\<close> and \<open>y\<close> of shape
  \<open>(M, D)\<close>, \<^verbatim>\<open>euclidean_numpy\<close> returns a matrix of shape \<open>(N, M)\<close>.  The two loop
  implementations allocate \<^verbatim>\<open>np.zeros((num_samples, num_samples))\<close> from \<^verbatim>\<open>x.shape\<close>, so
  when \<open>N \<le> M\<close> they return a matrix of shape \<open>(N, N)\<close>.  When \<open>x\<close> has no rows, all
  three return an empty matrix without error: of shape \<open>(0, M)\<close> from \<^verbatim>\<open>euclidean_numpy\<close>,
  of shape \<open>(0, 0)\<close> from the loops.
\<close>

theorem result_shape:
  assumes "well_formed x" "well_formed y" "snd (shape x) = snd (shape y)"
  shows "(\<exists>r. euclidean_numpy x y = Inr r \<and> shape r = (fst (shape x), fst (shape y)) \<and>
              well_formed r) \<and>
         (fst (shape x) \<le> fst (shape y) \<longrightarrow>
            (\<exists>r. euclidean_numba1 x y = Inr r \<and> shape r = (fst (shape x), fst (shape x)) \<and>
                 well_formed r) \<and>
            (\<exists>r. euclidean_numba2 x y = Inr r \<and> shape r = (fst (shape x), fst (shape x)) \<and>
                 well_formed r)) \<and>
         (fst (shape x) = 0 \<longrightarrow>
            euclidean_numpy x y = Inr \<lparr>shape = (0, fst (shape y)), data = []\<rparr> \<and>
            euclidean_numba1 x y = Inr \<lparr>shape = (0, 0), data = []\<rparr> \<and>
            euclidean_numba2 x y = Inr \<lparr>shape = (0, 0), data = []\<rparr>)"
proof -
  let ?n = "fst (shape x)" and ?m = "fst (shape y)" and ?d = "snd (shape x)"
  have np: "euclidean_numpy x y = Inr (sqdist_matrix ?n ?m ?d x y)"
    using assms(3) by (rule numpy_returns)
  have n1: "euclidean_numba1 x y = Inr (sqdist_matrix ?n ?n ?d x y)" if "?n \<le> ?m"
    using numba1_cases[OF assms(1,2)] assms(3) that by simp
  have n2: "euclidean_numba2 x y = Inr (sqdist_matrix ?n ?n ?d x y)" if "?n \<le> ?m"
    using numba2_cases[OF assms] that by simp
  have a: "\<exists>r. euclidean_numpy x y = Inr r \<and> shape r = (?n, ?m) \<and> well_formed r"
    using np by (simp add: shape_sqdist_matrix well_formed_sqdist_matrix)
  have b: "(\<exists>r. euclidean_numba1 x y = Inr r \<and> shape r = (?n, ?n) \<and> well_formed r) \<and>
           (\<exists>r. euclidean_numba2 x y = Inr r \<and> shape r = (?n, ?n) \<and> well_formed r)"
    if "?n \<le> ?m"
    using n1[OF that] n2[OF that] by (simp add: shape_sqdist_matrix well_formed_sqdist_matrix)
  have c: "euclidean_numpy x y = Inr \<lparr>shape = (0, ?m), data = []\<rparr> \<and>
           euclidean_numba1 x y = Inr \<lparr>shape = (0, 0), data = []\<rparr> \<and>
           euclidean_numba2 x y = Inr \<lparr>shape = (0, 0), data = []\<rparr>"
    if "?n = 0"
    using np n1 n2 that by (simp add: sqdist_matrix_no_rows)
  from a b c show ?thesis by blast
qed

theorem result_shape_witness:
  "well_formed \<lparr>shape = (0, 5), data = []\<rparr> \<and>
   well_formed \<lparr>shape = (3, 5), data = [[1, 2, 3, 4, 5], [5, 4, 3, 2, 1], [0, 0, 0, 0, 0]]\<rparr> \<and>
   euclidean_numpy \<lparr>shape = (0, 5), data = []\<rparr>
     \<lparr>shape = (3, 5), data = [[1, 2, 3, 4, 5], [5, 4, 3, 2, 1], [0, 0, 0, 0, 0]]\<rparr> =
     Inr \<lparr>shape = (0, 3), data = []\<rparr> \<and>
   euclidean_numba1 \<lparr>shape = (0, 5), data = []\<rparr>
     \<lparr>shape = (3, 5), data = [[1, 2, 3, 4, 5], [5, 4, 3, 2, 1], [0, 0, 0, 0, 0]]\<rparr> =
     Inr \<lparr>shape = (0, 0), data = []\<rparr> \<and>
   euclidean_numba2 \<lparr>shape = (0, 5), data = []\<rparr>
     \<lparr>shape = (3, 5), data = [[1, 2, 3, 4, 5], [5, 4, 3, 2, 1], [0, 0, 0, 0, 0]]\<rparr> =
     Inr \<lparr>shape = (0, 0), data = []\<rparr>"
proof -
  let ?x = "\<lparr>shape = (0, 5), data = []\<rparr>"
  let ?y = "\<lparr>shape = (3, 5), data = [[1, 2, 3, 4, 5], [5, 4, 3, 2, 1], [0, 0, 0, 0, 0]]\<rparr>"
  have wx: "well_formed ?x" by (simp add: well_formed_def)
  have wy: "well_formed ?y" by (simp add: well_formed_def)
  have d: "snd (shape ?x) = snd (shape ?y)" by simp
  show ?thesis using wx wy result_shape[OF wx wy d] by simp
qed

theorem result_shape_counterexample:
  "euclidean_numba1 \<lparr>shape = (0, 5), data = []\<rparr>
     \<lparr>shape = (3, 5), data = [[1, 1, 1, 1, 1], [2, 2, 2, 2, 2], [3, 3, 3, 3, 3]]\<rparr> =
     Inr \<lparr>shape = (0, 0), data = []\<rparr> \<and>
   euclidean_numba2 \<lparr>shape = (0, 5), data = []\<rparr>
     \<lparr>shape = (3, 5), data = [[1, 1, 1, 1, 1], [2, 2, 2, 2, 2], [3, 3, 3, 3, 3]]\<rparr> =
     Inr \<lparr>shape = (0, 0), data = []\<rparr> \<and>
   euclidean_numba1 \<lparr>shape = (0, 5), data = []\<rparr>
     \<lparr>shape = (3, 5), data = [[1, 1, 1, 1, 1], [2, 2, 2, 2, 2], [3, 3, 3, 3, 3]]\<rparr> \<noteq>
     Inr \<lparr>shape = (0, 3), data = []\<rparr> \<and>
   euclidean_numba2 \<lparr>shape = (0, 5), data = []\<rparr>
     \<lparr>shape = (3, 5), data = [[1, 1, 1, 1, 1], [2, 2, 2, 2, 2], [3, 3, 3, 3, 3]]\<rparr> \<noteq>
     Inr \<lparr>shape = (0, 3), data = []\<rparr>"
  by (simp add: euclidean_numba1_def euclidean_numba2_def np_zeros_def)




















text \<open>
  Claim C9.  When \<open>y\<close> has more rows than \<open>x\<close> and the same number of columns,
  \<^verbatim>\<open>euclidean_numba1\<close> and \<^verbatim>\<open>euclidean_numba2\<close> return, and return what they return for
  \<open>y\<close> cut down to its first \<open>rows(x)\<close> rows: the loop bounds and the allocation of
  the result come from \<^verbatim>\<open>x.shape\<close> alone, so the further rows of \<open>y\<close> are never read.
\<close>

theorem extra_rows_ignored:
  assumes "well_formed x" "well_formed y" "snd (shape x) = snd (shape y)"
    and "fst (shape x) < fst (shape y)"
  shows "euclidean_numba1 x y = euclidean_numba1 x (take_rows (fst (shape x)) y) \<and>
         euclidean_numba2 x y = euclidean_numba2 x (take_rows (fst (shape x)) y) \<and>
         (\<exists>r. euclidean_numba1 x y = Inr r) \<and> (\<exists>r. euclidean_numba2 x y = Inr r)"
proof -
  let ?t = "take_rows (fst (shape x)) y"
  have wt: "well_formed ?t" using assms(2) by (rule well_formed_take_rows)
  have st: "shape ?t = (fst (shape x), snd (shape y))"
    using assms(4) by (simp add: take_rows_def)
  have "euclidean_numba1 x y = Inr (sqdist_matrix (fst (shape x)) (fst (shape x)) (snd (shape x)) x y)"
    using numba1_cases[OF assms(1,2)] assms(3,4) by simp
  moreover have "euclidean_numba1 x ?t = Inr (sqdist_matrix (fst (shape x)) (fst (shape x)) (snd (shape x)) x y)"
    using numba1_cases[OF assms(1) wt] assms(3) st by (simp add: sqdist_matrix_take_rows)
  moreover have "euclidean_numba2 x y = Inr (sqdist_matrix (fst (shape x)) (fst (shape x)) (snd (shape x)) x y)"
    using numba2_cases[OF assms(1,2,3)] assms(4) by simp
  moreover have "euclidean_numba2 x ?t = Inr (sqdist_matrix (fst (shape x)) (fst (shape x)) (snd (shape x)) x y)"
    using numba2_cases[OF assms(1) wt] assms(3) st by (simp add: sqdist_matrix_take_rows)
  ultimately show ?thesis by simp
qed

theorem extra_rows_ignored_witness:
  "well_formed \<lparr>shape = (1, 2), data = [[1, 2]]\<rparr> \<and>
   well_formed \<lparr>shape = (3, 2), data = [[4, 6], [7, 7], [0, 1]]\<rparr> \<and>
   take_rows 1 \<lparr>shape = (3, 2), data = [[4, 6], [7, 7], [0, 1]]\<rparr> = \<lparr>shape = (1, 2), data = [[4, 6]]\<rparr> \<and>
   euclidean_numba1 \<lparr>shape = (1, 2), data = [[1, 2]]\<rparr> \<lparr>shape = (3, 2), data = [[4, 6], [7, 7], [0, 1]]\<rparr> =
     euclidean_numba1 \<lparr>shape = (1, 2), data = [[1, 2]]\<rparr> \<lparr>shape = (1, 2), data = [[4, 6]]\<rparr> \<and>
   euclidean_numba2 \<lparr>shape = (1, 2), data = [[1, 2]]\<rparr> \<lparr>shape = (3, 2), data = [[4, 6], [7, 7], [0, 1]]\<rparr> =
     euclidean_numba2 \<lparr>shape = (1, 2), data = [[1, 2]]\<rparr> \<lparr>shape = (1, 2), data = [[4, 6]]\<rparr>"
proof -
  let ?x = "\<lparr>shape = (1, 2), data = [[1, 2]]\<rparr>"
  let ?y = "\<lparr>shape = (3, 2), data = [[4, 6], [7, 7], [0, 1]]\<rparr>"
  have wx: "well_formed ?x" by (simp add: well_formed_def)
  have wy: "well_formed ?y" by (simp add: well_formed_def)
  have d: "snd (shape ?x) = snd (shape ?y)" by simp
  have n: "fst (shape ?x) < fst (shape ?y)" by simp
  have t: "take_rows 1 ?y = \<lparr>shape = (1, 2), data = [[4, 6]]\<rparr>" by (simp add: take_rows_def)
  show ?thesis using wx wy t extra_rows_ignored[OF wx wy d n] by simp
qed




end
